theory Spec2Isabelle
  imports Complex_Main "HOL-Library.Word" "HOL-Library.Log_Nat"
begin

unbundle bit_operations_syntax

section \<open>Data model of \<^verbatim>\<open>src/partition/partitioner.cpp\<close>\<close>

text \<open>
  \<^verbatim>\<open>NodeID\<close> and \<^verbatim>\<open>EdgeID\<close> are the 32-bit unsigned identifiers of the node-based and
  the edge-based graph; partition identifiers are \<^verbatim>\<open>std::uint32_t\<close>. Files are sequences
  of bytes.
\<close>

type_synonym byte = "8 word"
type_synonym u32 = "32 word"
type_synonym u64 = "64 word"
type_synonym NodeID = "32 word"
type_synonym EdgeID = "32 word"

text \<open>
  Every way in which the modelled code stops without a result: the reader's failures,
  the \<^verbatim>\<open>std::length_error\<close> of a vector that is asked to grow past its largest size,
  the assertion of \<^verbatim>\<open>Lookup\<close>, an index past the end of a vector, the conversion of a
  double that no \<^verbatim>\<open>std::uint32_t\<close> holds, and the two failures the recursive bisection
  engine reports.
\<close>

datatype error =
    OpenFailed
  | FingerprintMismatch
  | UnexpectedEOF
  | LengthError
  | AssertionFailed
  | OutOfRange
  | UndefinedConversion
  | ConfigurationError
  | DepthOverflow

text \<open>\<^verbatim>\<open>struct CompressedNodeBasedGraphEdge { NodeID source; NodeID target; }\<close> (lines 28-32).\<close>

record CompressedNodeBasedGraphEdge =
  source :: NodeID
  target :: NodeID

text \<open>
  Modelled from the spec: \<^verbatim>\<open>util::Coordinate\<close> (\<^verbatim>\<open>util/coordinate.hpp\<close> is not part of
  the sources at hand). Section 3 and 4.1: a (longitude, latitude) pair of fixed-point
  \<^verbatim>\<open>int32\<close> values; \<^const>\<open>sint\<close> reads a component as the signed number.
\<close>

record Coordinate =
  lon :: u32
  lat :: u32

text \<open>The two vectors of \<^verbatim>\<open>struct CompressedNodeBasedGraph\<close> (lines 56-57).\<close>

record CompressedNodeBasedGraph =
  edges :: "CompressedNodeBasedGraphEdge list"
  coordinates :: "Coordinate list"

text \<open>\<^verbatim>\<open>struct NodeBasedNodes { NodeID u, v; }\<close> (lines 97-100).\<close>

record NodeBasedNodes =
  u :: NodeID
  v :: NodeID

text \<open>
  The two private \<^verbatim>\<open>std::unordered_map<EdgeID, NodeBasedNodes>\<close> members of
  \<^verbatim>\<open>NodeBasedGraphToEdgeBasedGraphMapping\<close> (lines 117-118).
\<close>

record NodeBasedGraphToEdgeBasedGraphMapping =
  heads :: "EdgeID \<rightharpoonup> NodeBasedNodes"
  tails :: "EdgeID \<rightharpoonup> NodeBasedNodes"

section \<open>Byte layout of the fixed-width fields\<close>

text \<open>
  The reader copies the bytes of the file into the object, so a field of \<open>n\<close> bytes is the
  number those bytes spell on the host; the model takes a little-endian host.
  \<open>from_le\<close> is that reading, \<open>to_le\<close> the bytes a writer on the same host stores.
\<close>

definition from_le :: "byte list \<Rightarrow> 'a::len word" where
  "from_le bs = word_of_int (horner_sum uint (2 ^ 8) bs)"

definition to_le :: "nat \<Rightarrow> 'a::len word \<Rightarrow> byte list" where
  "to_le n w = map (\<lambda>i. ucast (drop_bit (8 * i) w)) [0..<n]"

text \<open>
  The records of the two files, as the comments at the head of the two constructors give
  them (lines 38-42 and 73-75): an edge is \<^verbatim>\<open>(uint32_t, uint32_t)\<close>, a coordinate
  \<^verbatim>\<open>(int32_t, int32_t)\<close> as \<^verbatim>\<open>(lon, lat)\<close>, a mapping is \<^verbatim>\<open>u v head tail\<close>.
\<close>

definition decode_edge :: "byte list \<Rightarrow> CompressedNodeBasedGraphEdge" where
  "decode_edge bs = \<lparr>source = from_le (take 4 bs), target = from_le (take 4 (drop 4 bs))\<rparr>"

definition decode_coordinate :: "byte list \<Rightarrow> Coordinate" where
  "decode_coordinate bs = \<lparr>lon = from_le (take 4 bs), lat = from_le (take 4 (drop 4 bs))\<rparr>"

definition encode_edge :: "CompressedNodeBasedGraphEdge \<Rightarrow> byte list" where
  "encode_edge e = to_le 4 (source e) @ to_le 4 (target e)"

definition encode_coordinate :: "Coordinate \<Rightarrow> byte list" where
  "encode_coordinate c = to_le 4 (lon c) @ to_le 4 (lat c)"

text \<open>A mapping record \<^verbatim>\<open>(u, v, head, tail)\<close> and its sixteen bytes in the file.\<close>

type_synonym mapping_record = "NodeID \<times> NodeID \<times> EdgeID \<times> EdgeID"

definition encode_mapping :: "mapping_record \<Rightarrow> byte list" where
  "encode_mapping r =
     (case r of (nu, nv, head, tail) \<Rightarrow> to_le 4 nu @ to_le 4 nv @ to_le 4 head @ to_le 4 tail)"

section \<open>The file reader\<close>

text \<open>
  \<^verbatim>\<open>storage::io::FileReader\<close> lives in \<^verbatim>\<open>storage/io.hpp\<close>, which is not part of the sources
  at hand; the loaders below only call it. A reader is the part of the file not yet read.
\<close>

type_synonym FileReader = "byte list"

datatype FingerprintFlag = VerifyFingerprint

text \<open>
  Modelled from the spec: the primitive read of \<^verbatim>\<open>FileReader\<close>. Section 4.1 and 7: a
  truncated file, or counts that exceed the readable bytes, are a fatal format/IO error.
\<close>

definition ReadBytes :: "nat \<Rightarrow> FileReader \<Rightarrow> error + (byte list \<times> FileReader)" where
  "ReadBytes n reader =
     (if length reader < n then Inl UnexpectedEOF else Inr (take n reader, drop n reader))"

text \<open>
  Modelled from the spec: \<^verbatim>\<open>FileReader::ReadOne<T>\<close> for an integer type \<open>T\<close> of
  \<open>LENGTH('a) div 8\<close> bytes (section 6 gives the widths of the fields).
\<close>

definition ReadOne :: "FileReader \<Rightarrow> error + ('a::len word \<times> FileReader)" where
  "ReadOne reader =
     (case ReadBytes (LENGTH('a) div 8) reader of
        Inl e \<Rightarrow> Inl e
      | Inr (bs, reader') \<Rightarrow> Inr (from_le bs, reader'))"

text \<open>
  Modelled from the spec: \<^verbatim>\<open>FileReader::ReadElementCount64\<close>, the \<^verbatim>\<open>uint64\<close> count that
  heads each section (section 4.1, 4.5 and 6).
\<close>

definition ReadElementCount64 :: "FileReader \<Rightarrow> error + (u64 \<times> FileReader)" where
  "ReadElementCount64 reader = ReadOne reader"

text \<open>
  Modelled from the spec: \<^verbatim>\<open>FileReader::ReadInto(std::vector<T> &)\<close>. It fills the vector
  it is given, so it reads as many records of \<open>sz\<close> bytes as the vector has entries, in
  file order (section 4.1), and fails when the file holds fewer.
\<close>

definition ReadInto ::
  "(byte list \<Rightarrow> 'a) \<Rightarrow> nat \<Rightarrow> 'a list \<Rightarrow> FileReader \<Rightarrow> error + ('a list \<times> FileReader)" where
  "ReadInto decode sz target_vec reader =
     (case ReadBytes (length target_vec * sz) reader of
        Inl e \<Rightarrow> Inl e
      | Inr (bs, reader') \<Rightarrow>
          Inr (map (\<lambda>i. decode (take sz (drop (i * sz) bs))) [0..<length target_vec], reader'))"

text \<open>
  Modelled from the spec: the constructor \<^verbatim>\<open>FileReader(path, VerifyFingerprint)\<close>. It
  opens the file and checks the fingerprint that heads it (section 4.1 and 7: a
  fingerprint that does not match is a fatal format error). \<open>valid\<close> is the fingerprint
  the build expects, \<open>fs\<close> the files that exist.
\<close>

definition FileReader_open ::
  "byte list \<Rightarrow> (string \<rightharpoonup> byte list) \<Rightarrow> string \<Rightarrow> FingerprintFlag \<Rightarrow> error + FileReader" where
  "FileReader_open valid fs path flag =
     (case fs path of
        None \<Rightarrow> Inl OpenFailed
      | Some bytes \<Rightarrow>
          (case flag of
             VerifyFingerprint \<Rightarrow>
               (case ReadBytes (length valid) bytes of
                  Inl e \<Rightarrow> Inl e
                | Inr (fingerprint, reader) \<Rightarrow>
                    if fingerprint = valid then Inr reader else Inl FingerprintMismatch)))"

section \<open>Loading the compressed node-based graph\<close>

text \<open>
  \<^verbatim>\<open>std::vector::resize\<close>: it throws \<^verbatim>\<open>std::length_error\<close> when \<open>n\<close> is above
  \<^verbatim>\<open>max_size()\<close>; otherwise the vector is cut to \<open>n\<close> entries, or filled up with
  value-initialised ones. \<^verbatim>\<open>max_size()\<close> is a constant of the standard library and of the
  host (for the eight-byte elements of both vectors, \<open>2 ^ 60 - 1\<close> or \<open>2 ^ 61 - 1\<close> on the
  usual 64-bit hosts): it is the parameter \<open>max_size\<close>.
\<close>

definition resize :: "nat \<Rightarrow> 'a \<Rightarrow> nat \<Rightarrow> 'a list \<Rightarrow> error + 'a list" where
  "resize max_size dflt n xs =
     (if max_size < n then Inl LengthError
      else Inr (take n xs @ replicate (n - length xs) dflt))"

text \<open>
  The constructor \<^verbatim>\<open>CompressedNodeBasedGraph(FileReader &)\<close> (lines 36-54): two counts,
  the two vectors resized to them (lines 49-50), then filled from the reader
  (lines 52-53).
\<close>

definition CompressedNodeBasedGraph_ctor ::
  "nat \<Rightarrow> FileReader \<Rightarrow> error + (CompressedNodeBasedGraph \<times> FileReader)" where
  "CompressedNodeBasedGraph_ctor max_size reader =
     (case ReadElementCount64 reader of
        Inl e \<Rightarrow> Inl e
      | Inr (num_edges, r1) \<Rightarrow>
     (case ReadElementCount64 r1 of
        Inl e \<Rightarrow> Inl e
      | Inr (num_nodes, r2) \<Rightarrow>
     (case resize max_size \<lparr>source = 0, target = 0\<rparr> (unat num_edges) [] of
        Inl e \<Rightarrow> Inl e
      | Inr edges0 \<Rightarrow>
     (case resize max_size \<lparr>lon = 0, lat = 0\<rparr> (unat num_nodes) [] of
        Inl e \<Rightarrow> Inl e
      | Inr coordinates0 \<Rightarrow>
     (case ReadInto decode_edge 8 edges0 r2 of
        Inl e \<Rightarrow> Inl e
      | Inr (edges1, r3) \<Rightarrow>
     (case ReadInto decode_coordinate 8 coordinates0 r3 of
        Inl e \<Rightarrow> Inl e
      | Inr (coordinates1, r4) \<Rightarrow>
          Inr (\<lparr>edges = edges1, coordinates = coordinates1\<rparr>, r4)))))))"

text \<open>\<^verbatim>\<open>LoadCompressedNodeBasedGraph(path)\<close> (lines 60-67).\<close>

definition LoadCompressedNodeBasedGraph ::
  "nat \<Rightarrow> byte list \<Rightarrow> (string \<rightharpoonup> byte list) \<Rightarrow> string
    \<Rightarrow> error + CompressedNodeBasedGraph" where
  "LoadCompressedNodeBasedGraph max_size valid fs path =
     (case FileReader_open valid fs path VerifyFingerprint of
        Inl e \<Rightarrow> Inl e
      | Inr reader \<Rightarrow>
          (case CompressedNodeBasedGraph_ctor max_size reader of
             Inl e \<Rightarrow> Inl e
           | Inr (graph, _) \<Rightarrow> Inr graph))"

section \<open>Loading the node-based to edge-based mapping\<close>

text \<open>
  \<^verbatim>\<open>std::unordered_map::insert\<close>: the entry is stored only when the key has none yet.
\<close>

definition unordered_map_insert :: "('k \<rightharpoonup> 'v) \<Rightarrow> 'k \<Rightarrow> 'v \<Rightarrow> ('k \<rightharpoonup> 'v)" where
  "unordered_map_insert m k x = (case m k of None \<Rightarrow> m(k \<mapsto> x) | Some _ \<Rightarrow> m)"

text \<open>
  The loop of the constructor (lines 84-94), on the number of records still to read:
  four reads, then one insertion into each table.
\<close>

primrec read_mappings ::
  "nat \<Rightarrow> FileReader \<Rightarrow> NodeBasedGraphToEdgeBasedGraphMapping
    \<Rightarrow> error + (NodeBasedGraphToEdgeBasedGraphMapping \<times> FileReader)" where
  "read_mappings 0 reader m = Inr (m, reader)"
| "read_mappings (Suc k) reader m =
     (case ReadOne reader of
        Inl e \<Rightarrow> Inl e
      | Inr (nu, r1) \<Rightarrow>
     (case ReadOne r1 of
        Inl e \<Rightarrow> Inl e
      | Inr (nv, r2) \<Rightarrow>
     (case ReadOne r2 of
        Inl e \<Rightarrow> Inl e
      | Inr (head, r3) \<Rightarrow>
     (case ReadOne r3 of
        Inl e \<Rightarrow> Inl e
      | Inr (tail, r4) \<Rightarrow>
          read_mappings k r4
            \<lparr>heads = unordered_map_insert (heads m) head \<lparr>u = nu, v = nv\<rparr>,
             tails = unordered_map_insert (tails m) tail \<lparr>u = nu, v = nv\<rparr>\<rparr>))))"

text \<open>
  The constructor \<^verbatim>\<open>NodeBasedGraphToEdgeBasedGraphMapping(FileReader &)\<close> (lines 71-95):
  the count, then the loop over two tables that start empty (\<^verbatim>\<open>reserve\<close> stores nothing).
\<close>

definition NodeBasedGraphToEdgeBasedGraphMapping_ctor ::
  "FileReader \<Rightarrow> error + (NodeBasedGraphToEdgeBasedGraphMapping \<times> FileReader)" where
  "NodeBasedGraphToEdgeBasedGraphMapping_ctor reader =
     (case ReadElementCount64 reader of
        Inl e \<Rightarrow> Inl e
      | Inr (num_mappings, r1) \<Rightarrow>
          read_mappings (unat num_mappings) r1 \<lparr>heads = Map.empty, tails = Map.empty\<rparr>)"

text \<open>\<^verbatim>\<open>LoadNodeBasedGraphToEdgeBasedGraphMapping(path)\<close> (lines 121-129).\<close>

definition LoadNodeBasedGraphToEdgeBasedGraphMapping ::
  "byte list \<Rightarrow> (string \<rightharpoonup> byte list) \<Rightarrow> string
    \<Rightarrow> error + NodeBasedGraphToEdgeBasedGraphMapping" where
  "LoadNodeBasedGraphToEdgeBasedGraphMapping valid fs path =
     (case FileReader_open valid fs path VerifyFingerprint of
        Inl e \<Rightarrow> Inl e
      | Inr reader \<Rightarrow>
          (case NodeBasedGraphToEdgeBasedGraphMapping_ctor reader of
             Inl e \<Rightarrow> Inl e
           | Inr (mapping, _) \<Rightarrow> Inr mapping))"

text \<open>
  \<^verbatim>\<open>Lookup\<close> (lines 102-114). \<^verbatim>\<open>BOOST_ASSERT(false)\<close> stops the program when assertions
  are compiled in and is nothing when they are compiled out, so the build is the
  parameter \<open>assertions\<close>. \<^verbatim>\<open>SPECIAL_NODEID\<close> is a constant of \<^verbatim>\<open>util/typedefs.hpp\<close>, which
  is not part of the sources at hand: it is the parameter \<open>special_nodeid\<close>.
\<close>

definition Lookup ::
  "bool \<Rightarrow> NodeID \<Rightarrow> NodeBasedGraphToEdgeBasedGraphMapping \<Rightarrow> EdgeID \<Rightarrow> error + NodeBasedNodes" where
  "Lookup assertions special_nodeid m edge_based_node =
     (case heads m edge_based_node of
        Some nodes \<Rightarrow> Inr nodes
      | None \<Rightarrow>
          (case tails m edge_based_node of
             Some nodes \<Rightarrow> Inr nodes
           | None \<Rightarrow>
               if assertions then Inl AssertionFailed
               else Inr \<lparr>u = special_nodeid, v = special_nodeid\<rparr>))"

section \<open>The bisection graph\<close>

text \<open>
  Modelled from the spec: the graph of \<^verbatim>\<open>partition/bisection_graph.hpp\<close>, which is not
  part of the sources at hand. Section 3 and 4.2: one entry per coordinate, each with the
  slice of outgoing arcs whose source is its own index; an arc of the graph stores only
  its target.
\<close>

record BisectionEdge =
  edge_target :: NodeID

record BisectionNode =
  coordinate :: Coordinate
  out_edges :: "BisectionEdge list"

type_synonym BisectionGraph = "BisectionNode list"

text \<open>
  Modelled from the spec: \<^verbatim>\<open>groupEdgesBySource\<close> (section 4.2), as the ascending sort by
  source that the spec names as sufficient.
\<close>

definition groupEdgesBySource ::
  "CompressedNodeBasedGraphEdge list \<Rightarrow> CompressedNodeBasedGraphEdge list" where
  "groupEdgesBySource es = sort_key (\<lambda>e. unat (source e)) es"

text \<open>
  Modelled from the spec: \<^verbatim>\<open>adaptToBisectionEdge\<close> (section 4.2) projects every arc into
  the graph's edge, which keeps the target; the source stays beside it until the slices
  are cut.
\<close>

definition adaptToBisectionEdge ::
  "CompressedNodeBasedGraphEdge list \<Rightarrow> (NodeID \<times> BisectionEdge) list" where
  "adaptToBisectionEdge es = map (\<lambda>e. (source e, \<lparr>edge_target = target e\<rparr>)) es"

text \<open>
  Modelled from the spec: \<^verbatim>\<open>makeBisectionGraph\<close> (section 4.2): one node per coordinate,
  owning the arcs whose source is its index, in the order of the grouping; a node without
  outgoing arcs gets the empty slice.
\<close>

definition makeBisectionGraph ::
  "Coordinate list \<Rightarrow> (NodeID \<times> BisectionEdge) list \<Rightarrow> BisectionGraph" where
  "makeBisectionGraph coords es =
     map (\<lambda>i. \<lparr>coordinate = coords ! i,
               out_edges = map snd (filter (\<lambda>se. unat (fst se) = i) es)\<rparr>)
       [0..<length coords]"

text \<open>Modelled from the spec: \<^verbatim>\<open>BisectionGraph::NumberOfNodes\<close> (section 3 and 4.2).\<close>

definition NumberOfNodes :: "BisectionGraph \<Rightarrow> nat" where
  "NumberOfNodes graph = length graph"

text \<open>
  A vector read at an index: past the end the C++ is undefined, which the model reports.
\<close>

definition at_index :: "'a list \<Rightarrow> nat \<Rightarrow> error + 'a" where
  "at_index xs i = (if i < length xs then Inr (xs ! i) else Inl OutOfRange)"

text \<open>
  Modelled from the spec: \<^verbatim>\<open>BisectionGraph::Node\<close> and \<^verbatim>\<open>BisectionGraph::Edges\<close>
  (section 4.2).
\<close>

definition Node :: "BisectionGraph \<Rightarrow> nat \<Rightarrow> error + BisectionNode" where
  "Node graph nid = at_index graph nid"

definition Edges :: "BisectionGraph \<Rightarrow> nat \<Rightarrow> error + BisectionEdge list" where
  "Edges graph nid =
     (case at_index graph nid of Inl e \<Rightarrow> Inl e | Inr node \<Rightarrow> Inr (out_edges node))"

section \<open>The partition identifier interpreter of \<^verbatim>\<open>LogGeojson\<close>\<close>

text \<open>The lambda \<^verbatim>\<open>reverse_bits\<close> (lines 153-160): five rounds of swapping neighbours.\<close>

definition reverse_bits :: "u32 \<Rightarrow> u32" where
  "reverse_bits x0 =
    (let x1 = (drop_bit 1 x0 AND 0x55555555) OR push_bit 1 (x0 AND 0x55555555);
         x2 = (drop_bit 2 x1 AND 0x33333333) OR push_bit 2 (x1 AND 0x33333333);
         x3 = (drop_bit 4 x2 AND 0x0f0f0f0f) OR push_bit 4 (x2 AND 0x0f0f0f0f);
         x4 = (drop_bit 8 x3 AND 0x00ff00ff) OR push_bit 8 (x3 AND 0x00ff00ff);
         x5 = (drop_bit 16 x4 AND 0xffff) OR push_bit 16 (x4 AND 0xffff)
     in x5)"

text \<open>
  The lambda \<^verbatim>\<open>get_level\<close> (lines 147-151): \<^verbatim>\<open>log(xored) / log(2.0)\<close> in doubles,
  converted to \<^verbatim>\<open>std::uint32_t\<close>, which drops the fraction. The model computes the
  quotient of the two logarithms in the reals, so it leaves the rounding of the doubles
  out. At \<open>xored = 0\<close> the logarithm is minus infinity, which no \<^verbatim>\<open>std::uint32_t\<close> holds:
  the conversion is undefined, and the model reports it.
\<close>

definition get_level :: "u32 \<Rightarrow> u32 \<Rightarrow> error + u32" where
  "get_level lhs rhs =
     (let xored = lhs XOR rhs
      in if xored = 0 then Inl UndefinedConversion
         else Inr (word_of_int \<lfloor>ln (real (unat xored)) / ln 2\<rfloor>))"

text \<open>
  \<^verbatim>\<open>border_vertices[level].push_back(c)\<close> on the vector of 33 vectors (line 162); an
  index past its end is undefined in the C++.
\<close>

definition push_back_at :: "'a list list \<Rightarrow> nat \<Rightarrow> 'a \<Rightarrow> error + 'a list list" where
  "push_back_at vs i x = (if i < length vs then Inr (vs[i := vs ! i @ [x]]) else Inl OutOfRange)"

text \<open>
  The body of the inner loop (lines 169-175), for one outgoing arc of node \<open>nid\<close>, whose
  reversed identifier is \<open>source_id\<close>.
\<close>

definition visit_edge ::
  "BisectionGraph \<Rightarrow> u32 list \<Rightarrow> nat \<Rightarrow> u32 \<Rightarrow> BisectionEdge \<Rightarrow> Coordinate list list
    \<Rightarrow> error + Coordinate list list" where
  "visit_edge graph bisection_ids nid source_id edge border_vertices =
     (case at_index bisection_ids (unat (edge_target edge)) of
        Inl e \<Rightarrow> Inl e
      | Inr bisection_id \<Rightarrow>
     (let target_id = reverse_bits bisection_id
      in if source_id \<noteq> target_id then
           (case get_level source_id target_id of
              Inl e \<Rightarrow> Inl e
            | Inr level \<Rightarrow>
           (case Node graph nid of
              Inl e \<Rightarrow> Inl e
            | Inr source_node \<Rightarrow>
           (case push_back_at border_vertices (unat level) (coordinate source_node) of
              Inl e \<Rightarrow> Inl e
            | Inr border_vertices1 \<Rightarrow>
           (case Node graph (unat (edge_target edge)) of
              Inl e \<Rightarrow> Inl e
            | Inr target_node \<Rightarrow>
                push_back_at border_vertices1 (unat level) (coordinate target_node)))))
         else Inr border_vertices))"

text \<open>A \<^verbatim>\<open>for\<close> loop over a sequence whose body may stop the program.\<close>

primrec for_each :: "('a \<Rightarrow> 's \<Rightarrow> error + 's) \<Rightarrow> 'a list \<Rightarrow> 's \<Rightarrow> error + 's" where
  "for_each body [] s = Inr s"
| "for_each body (x # xs) s =
     (case body x s of Inl e \<Rightarrow> Inl e | Inr s' \<Rightarrow> for_each body xs s')"

text \<open>The body of the outer loop (lines 166-176), for one node.\<close>

definition visit_node ::
  "BisectionGraph \<Rightarrow> u32 list \<Rightarrow> nat \<Rightarrow> Coordinate list list \<Rightarrow> error + Coordinate list list" where
  "visit_node graph bisection_ids nid border_vertices =
     (case at_index bisection_ids nid of
        Inl e \<Rightarrow> Inl e
      | Inr bisection_id \<Rightarrow>
     (let source_id = reverse_bits bisection_id
      in (case Edges graph nid of
            Inl e \<Rightarrow> Inl e
          | Inr es \<Rightarrow>
              for_each (visit_edge graph bisection_ids nid source_id) es border_vertices)))"

text \<open>
  The border vertices that \<^verbatim>\<open>LogGeojson\<close> collects (lines 162-177): 33 empty vectors,
  then the loop over all nodes of the graph.
\<close>

definition collect_border_vertices ::
  "BisectionGraph \<Rightarrow> u32 list \<Rightarrow> error + Coordinate list list" where
  "collect_border_vertices graph bisection_ids =
     for_each (visit_node graph bisection_ids) [0..<NumberOfNodes graph] (replicate 33 [])"

text \<open>
  \<^verbatim>\<open>LogGeojson\<close> up to the end of its loop (lines 131-177): the graph is loaded again,
  its edges are grouped by source and the bisection graph is built from them, then the
  border vertices are collected. The sorting and writing of the vertices that follows
  (lines 179-195) computes no level and is not modelled.
\<close>

definition LogGeojson_border_vertices ::
  "nat \<Rightarrow> byte list \<Rightarrow> (string \<rightharpoonup> byte list) \<Rightarrow> string \<Rightarrow> u32 list
    \<Rightarrow> error + Coordinate list list" where
  "LogGeojson_border_vertices max_size valid fs filename bisection_ids =
     (case LoadCompressedNodeBasedGraph max_size valid fs filename of
        Inl e \<Rightarrow> Inl e
      | Inr compressed_node_based_graph \<Rightarrow>
          (let grouped = groupEdgesBySource (edges compressed_node_based_graph);
               graph = makeBisectionGraph (coordinates compressed_node_based_graph)
                         (adaptToBisectionEdge grouped)
           in collect_border_vertices graph bisection_ids))"

section \<open>The recursive bisection engine\<close>

text \<open>
  \<^verbatim>\<open>Partitioner::Run\<close> constructs a \<^verbatim>\<open>RecursiveBisection\<close> (lines 214-218) and hands its
  \<^verbatim>\<open>BisectionIDs()\<close> to \<^verbatim>\<open>LogGeojson\<close> (lines 220-221). The class is declared in
  \<^verbatim>\<open>partition/recursive_bisection.hpp\<close>, which is not part of the sources at hand.
\<close>

text \<open>
  Modelled from the spec: the state of \<^verbatim>\<open>RecursiveBisection\<close>, which section 4.3 gives as
  one stored identifier per node.
\<close>

record RecursiveBisection =
  partition_ids :: "u32 list"

text \<open>
  Modelled from the spec: step 4 of section 4.3. Every node of the subset receives its bit
  at the current depth, 0 on one side and 1 on the other; section 4.4 stores the bits from
  the low-order end, so the bit of depth \<open>d\<close> is bit \<open>d\<close>.
\<close>

definition assign_bits :: "(nat \<Rightarrow> bool) \<Rightarrow> nat \<Rightarrow> nat list \<Rightarrow> u32 list \<Rightarrow> u32 list" where
  "assign_bits side depth cell ids =
     fold (\<lambda>n acc. if side n then acc[n := acc ! n OR push_bit depth 1] else acc) cell ids"

text \<open>
  Modelled from the spec: the recursion of section 4.3 on a subset of the nodes, with \<open>k\<close>
  the number of identifier bits still free (the depth is \<open>32 - k\<close>). Step 1: a subset of
  at most \<open>maximum_cell_size\<close> nodes is a cell. Steps 2 and 3, the candidate cuts and the
  choice among them, are a heuristic that the spec leaves open: \<open>choose_side\<close> is a parameter that
  gives the side of every node of the subset. Step 4 assigns the bits, step 5 recurses
  on both sides. A depth past the 32 bits of the identifier is the overflow that the spec
  wants reported.
\<close>

primrec bisect ::
  "(nat list \<Rightarrow> nat \<Rightarrow> bool) \<Rightarrow> nat \<Rightarrow> nat \<Rightarrow> nat list \<Rightarrow> u32 list \<Rightarrow> error + u32 list" where
  "bisect choose_side maximum_cell_size 0 cell ids =
     (if length cell \<le> maximum_cell_size then Inr ids else Inl DepthOverflow)"
| "bisect choose_side maximum_cell_size (Suc k) cell ids =
     (if length cell \<le> maximum_cell_size then Inr ids
      else
        (let side = choose_side cell;
             ids1 = assign_bits side (31 - k) cell ids
         in (case bisect choose_side maximum_cell_size k (filter (\<lambda>n. \<not> side n) cell) ids1 of
               Inl e \<Rightarrow> Inl e
             | Inr ids2 \<Rightarrow> bisect choose_side maximum_cell_size k (filter side cell) ids2)))"

text \<open>
  Modelled from the spec: the constructor of \<^verbatim>\<open>RecursiveBisection\<close> (section 4.3). Invalid
  parameters are a configuration error before any recursion starts; then the whole node
  set is partitioned, from identifiers that are all 0. \<open>select_cut\<close> is the heuristic of
  steps 2 and 3, which sees the graph and the parameters that steer it.
\<close>

definition RecursiveBisection_ctor ::
  "(BisectionGraph \<Rightarrow> real \<Rightarrow> real \<Rightarrow> nat \<Rightarrow> nat list \<Rightarrow> nat \<Rightarrow> bool)
    \<Rightarrow> nat \<Rightarrow> real \<Rightarrow> real \<Rightarrow> nat \<Rightarrow> BisectionGraph \<Rightarrow> error + RecursiveBisection" where
  "RecursiveBisection_ctor select_cut maximum_cell_size balance boundary_factor
       num_optimizing_cuts graph =
     (if maximum_cell_size < 1 \<or> \<not> (0 < balance \<and> balance \<le> 1) \<or> boundary_factor < 0
      then Inl ConfigurationError
      else
        (case bisect (select_cut graph balance boundary_factor num_optimizing_cuts)
                maximum_cell_size 32 [0..<NumberOfNodes graph]
                (replicate (NumberOfNodes graph) 0) of
           Inl e \<Rightarrow> Inl e
         | Inr ids \<Rightarrow> Inr \<lparr>partition_ids = ids\<rparr>))"

text \<open>Modelled from the spec: \<^verbatim>\<open>RecursiveBisection::BisectionIDs\<close> (section 4.3).\<close>

definition BisectionIDs :: "RecursiveBisection \<Rightarrow> u32 list" where
  "BisectionIDs rb = partition_ids rb"

section \<open>Notions used in the statements and proofs\<close>

text \<open>
  One round exchanges the two halves of every block: bit \<open>n\<close> of the result is the bit of
  the argument whose index differs from \<open>n\<close> in the digit of weight \<open>s\<close>.
\<close>

definition swap_idx :: "nat \<Rightarrow> nat \<Rightarrow> nat" where
  "swap_idx s n = (if even (n div s) then n + s else n - s)"

text \<open>
  The level of section 4.4 in the spec's words, \<open>floor (log2 (reverse_bits id_a XOR
  reverse_bits id_b))\<close>. The reversal of the 32-bit order is the library's
  \<^const>\<open>word_reverse\<close> here, which is defined from the list of the bits and owes nothing
  to the five rounds of the source.
\<close>

definition spec_level :: "u32 \<Rightarrow> u32 \<Rightarrow> nat" where
  "spec_level id_a id_b = nat \<lfloor>log 2 (real (unat (word_reverse id_a XOR word_reverse id_b)))\<rfloor>"

text \<open>
  What it is for an arc from node \<open>nid\<close> to node \<open>tid\<close> to be a border arc of a level:
  the coordinates of both nodes, in this order, end the border vertices of that level.
\<close>

definition add_border_arc ::
  "BisectionGraph \<Rightarrow> nat \<Rightarrow> nat \<Rightarrow> nat \<Rightarrow> Coordinate list list \<Rightarrow> Coordinate list list" where
  "add_border_arc graph level nid tid border_vertices =
     border_vertices[level := border_vertices ! level
       @ [coordinate (graph ! nid), coordinate (graph ! tid)]]"

text \<open>
  The parts of a mapping record, and the two tables after the loop of the constructor
  has inserted a list of records in file order.
\<close>

definition head_of :: "mapping_record \<Rightarrow> EdgeID" where
  "head_of r = (case r of (nu, nv, head, tail) \<Rightarrow> head)"

definition tail_of :: "mapping_record \<Rightarrow> EdgeID" where
  "tail_of r = (case r of (nu, nv, head, tail) \<Rightarrow> tail)"

definition nodes_of :: "mapping_record \<Rightarrow> NodeBasedNodes" where
  "nodes_of r = (case r of (nu, nv, head, tail) \<Rightarrow> \<lparr>u = nu, v = nv\<rparr>)"

primrec insert_records ::
  "mapping_record list \<Rightarrow> NodeBasedGraphToEdgeBasedGraphMapping
    \<Rightarrow> NodeBasedGraphToEdgeBasedGraphMapping" where
  "insert_records [] m = m"
| "insert_records (r # rs) m =
     insert_records rs
       \<lparr>heads = unordered_map_insert (heads m) (head_of r) (nodes_of r),
        tails = unordered_map_insert (tails m) (tail_of r) (nodes_of r)\<rparr>"

section \<open>Bit reversal\<close>

lemma less_32_cases:
  "n < (32::nat) \<Longrightarrow>
   n \<in> {0, 1, 2, 3, 4, 5, 6, 7, 8, 9, 10, 11, 12, 13, 14, 15, 16, 17, 18, 19, 20, 21, 22,
        23, 24, 25, 26, 27, 28, 29, 30, 31}"
  by simp arith

text \<open>Each mask keeps the lower half of every block of \<open>2 * s\<close> bits.\<close>

lemma mask_55: "bit (0x55555555 :: u32) n \<longleftrightarrow> n < 32 \<and> even n"
proof (cases "n < 32")
  case True
  from less_32_cases [OF this] show ?thesis by auto
next
  case False
  then show ?thesis by (auto dest: bit_imp_le_length)
qed

lemma mask_33: "bit (0x33333333 :: u32) n \<longleftrightarrow> n < 32 \<and> even (n div 2)"
proof (cases "n < 32")
  case True
  from less_32_cases [OF this] show ?thesis by auto
next
  case False
  then show ?thesis by (auto dest: bit_imp_le_length)
qed

lemma mask_0f: "bit (0x0f0f0f0f :: u32) n \<longleftrightarrow> n < 32 \<and> even (n div 4)"
proof (cases "n < 32")
  case True
  from less_32_cases [OF this] show ?thesis by auto
next
  case False
  then show ?thesis by (auto dest: bit_imp_le_length)
qed

lemma mask_00ff: "bit (0x00ff00ff :: u32) n \<longleftrightarrow> n < 32 \<and> even (n div 8)"
proof (cases "n < 32")
  case True
  from less_32_cases [OF this] show ?thesis by auto
next
  case False
  then show ?thesis by (auto dest: bit_imp_le_length)
qed

lemma mask_ffff: "bit (0xffff :: u32) n \<longleftrightarrow> n < 32 \<and> even (n div 16)"
proof (cases "n < 32")
  case True
  from less_32_cases [OF this] show ?thesis by auto
next
  case False
  then show ?thesis by (auto dest: bit_imp_le_length)
qed

lemma bit_swap_round:
  fixes x m :: u32
  assumes m: "\<And>n. bit m n \<longleftrightarrow> n < 32 \<and> even (n div s)" and s: "0 < s"
  shows "bit ((drop_bit s x AND m) OR push_bit s (x AND m)) n
    \<longleftrightarrow> n < 32 \<and> bit x (swap_idx s n)"
proof (cases "even (n div s)")
  case True
  have "\<not> (s \<le> n \<and> even ((n - s) div s))"
    using True s by (auto simp: le_div_geq)
  with True show ?thesis
    by (auto simp: bit_or_iff bit_and_iff bit_drop_bit_eq bit_push_bit_iff m swap_idx_def
        add.commute dest: bit_imp_le_length)
next
  case False
  then have "s \<le> n"
    by (metis div_less even_zero not_le_imp_less)
  with False s have "even ((n - s) div s)"
    by (simp add: le_div_geq)
  with False \<open>s \<le> n\<close> show ?thesis
    by (auto simp: bit_or_iff bit_and_iff bit_drop_bit_eq bit_push_bit_iff m swap_idx_def
        dest: bit_imp_le_length)
qed

lemma round_16:
  "bit ((drop_bit 16 x AND 0xffff) OR push_bit 16 (x AND 0xffff)) n
    \<longleftrightarrow> n < 32 \<and> bit (x::u32) (swap_idx 16 n)"
  by (rule bit_swap_round) (use mask_ffff in auto)

lemma round_8:
  "bit ((drop_bit 8 x AND 0x00ff00ff) OR push_bit 8 (x AND 0x00ff00ff)) n
    \<longleftrightarrow> n < 32 \<and> bit (x::u32) (swap_idx 8 n)"
  by (rule bit_swap_round) (use mask_00ff in auto)

lemma round_4:
  "bit ((drop_bit 4 x AND 0x0f0f0f0f) OR push_bit 4 (x AND 0x0f0f0f0f)) n
    \<longleftrightarrow> n < 32 \<and> bit (x::u32) (swap_idx 4 n)"
  by (rule bit_swap_round) (use mask_0f in auto)

lemma round_2:
  "bit ((drop_bit 2 x AND 0x33333333) OR push_bit 2 (x AND 0x33333333)) n
    \<longleftrightarrow> n < 32 \<and> bit (x::u32) (swap_idx 2 n)"
  by (rule bit_swap_round) (use mask_33 in auto)

lemma round_1:
  "bit ((drop_bit 1 x AND 0x55555555) OR push_bit 1 (x AND 0x55555555)) n
    \<longleftrightarrow> n < 32 \<and> bit (x::u32) (swap_idx 1 n)"
  by (rule bit_swap_round) (use mask_55 in auto)

lemma swap_idx_all:
  "n < 32 \<Longrightarrow> swap_idx 1 (swap_idx 2 (swap_idx 4 (swap_idx 8 (swap_idx 16 n)))) = 31 - n"
  by (drule less_32_cases, elim insertE emptyE) (simp_all add: swap_idx_def)

lemma swap_idx_less: "n < 32 \<Longrightarrow> s \<in> {1, 2, 4, 8, 16} \<Longrightarrow> swap_idx s n < 32"
  by (drule less_32_cases, elim insertE emptyE) (simp_all add: swap_idx_def)

lemma bit_reverse_bits: "bit (reverse_bits x) n \<longleftrightarrow> n < 32 \<and> bit x (31 - n)"
proof (cases "n < 32")
  case True
  define x1 where "x1 = (drop_bit 1 x AND 0x55555555) OR push_bit 1 (x AND 0x55555555)"
  define x2 where "x2 = (drop_bit 2 x1 AND 0x33333333) OR push_bit 2 (x1 AND 0x33333333)"
  define x3 where "x3 = (drop_bit 4 x2 AND 0x0f0f0f0f) OR push_bit 4 (x2 AND 0x0f0f0f0f)"
  define x4 where "x4 = (drop_bit 8 x3 AND 0x00ff00ff) OR push_bit 8 (x3 AND 0x00ff00ff)"
  define x5 where "x5 = (drop_bit 16 x4 AND 0xffff) OR push_bit 16 (x4 AND 0xffff)"
  have r: "reverse_bits x = x5"
    unfolding reverse_bits_def Let_def x5_def x4_def x3_def x2_def x1_def ..
  have "bit x5 n \<longleftrightarrow> bit x4 (swap_idx 16 n)"
    unfolding x5_def round_16 using True by simp
  also have "\<dots> \<longleftrightarrow> bit x3 (swap_idx 8 (swap_idx 16 n))"
    unfolding x4_def round_8 using True by (simp add: swap_idx_less)
  also have "\<dots> \<longleftrightarrow> bit x2 (swap_idx 4 (swap_idx 8 (swap_idx 16 n)))"
    unfolding x3_def round_4 using True by (simp add: swap_idx_less)
  also have "\<dots> \<longleftrightarrow> bit x1 (swap_idx 2 (swap_idx 4 (swap_idx 8 (swap_idx 16 n))))"
    unfolding x2_def round_2 using True by (simp add: swap_idx_less)
  also have "\<dots> \<longleftrightarrow> bit x (swap_idx 1 (swap_idx 2 (swap_idx 4 (swap_idx 8 (swap_idx 16 n)))))"
    unfolding x1_def round_1 using True by (simp add: swap_idx_less)
  finally show ?thesis
    unfolding r swap_idx_all [OF True] using True by simp
next
  case False
  then show ?thesis by (auto dest: bit_imp_le_length)
qed

lemma reverse_bits_twice: "reverse_bits (reverse_bits x) = x"
  by (rule bit_eqI) (auto simp: bit_reverse_bits dest: bit_imp_le_length)

lemma reverse_bits_inject: "reverse_bits x = reverse_bits y \<longleftrightarrow> x = y"
  by (metis reverse_bits_twice)

text \<open>
  C10. For every 32-bit value \<open>x\<close>, \<open>reverse_bits\<close> carries bit \<open>i\<close> of \<open>x\<close> to bit
  \<open>31 - i\<close> of its result, so reversing twice gives \<open>x\<close> back.
\<close>

theorem C10_reverse_bits_mirror_involution:
  "(\<forall>i<32. bit (reverse_bits x) (31 - i) \<longleftrightarrow> bit x i) \<and> reverse_bits (reverse_bits x) = x"
  by (auto simp: bit_reverse_bits reverse_bits_twice)

theorem C10_reverse_bits_mirror_involution_witness:
  "(0::nat) < 32 \<and> bit (reverse_bits 1) (31 - 0) \<and> bit (1::u32) 0
    \<and> reverse_bits (reverse_bits 1) = 1"
proof -
  have mirror: "\<forall>i<32. bit (reverse_bits 1) (31 - i) \<longleftrightarrow> bit (1::u32) i"
    and twice: "reverse_bits (reverse_bits 1) = 1"
    using C10_reverse_bits_mirror_involution [of 1] by simp_all
  from mirror have "(0::nat) < 32 \<longrightarrow> (bit (reverse_bits 1) (31 - 0) \<longleftrightarrow> bit (1::u32) 0)"
    by (rule spec)
  with twice show ?thesis by simp
qed

section \<open>The divergence level\<close>

lemma reverse_bits_xor: "reverse_bits a XOR reverse_bits b = reverse_bits (a XOR b)"
  by (rule bit_eqI) (auto simp: bit_reverse_bits bit_xor_iff)

lemma xor_eq_0_iff: "(a::u32) XOR b = 0 \<longleftrightarrow> a = b"
  by (metis bit.xor_left_self xor.right_neutral)


lemma floor_log2_nat:
  fixes n :: nat
  assumes pos: "0 < n" and less: "n < 2 ^ 32"
  shows "0 \<le> \<lfloor>log 2 (real n)\<rfloor>" and "\<lfloor>log 2 (real n)\<rfloor> < 32"
    and "nat \<lfloor>log 2 (real n)\<rfloor> = floorlog 2 n - 1"
proof -
  from pos have fl: "floorlog 2 n = nat \<lfloor>log 2 (real n)\<rfloor> + 1"
    by (simp add: floorlog_def)
  from pos have "0 \<le> log 2 (real n)" by (simp add: zero_le_log_cancel_iff)
  then show nonneg: "0 \<le> \<lfloor>log 2 (real n)\<rfloor>" by simp
  show "nat \<lfloor>log 2 (real n)\<rfloor> = floorlog 2 n - 1" using fl by simp
  have "2 ^ (floorlog 2 n - 1) \<le> n"
    using floorlog_bounds [of n 2] pos by simp
  also note less
  finally have lt: "(2::nat) ^ (floorlog 2 n - 1) < 2 ^ 32" .
  have "(1::nat) < 2" by simp
  from this lt have "floorlog 2 n - 1 < 32" by (rule power_less_imp_less_exp)
  with fl have "nat \<lfloor>log 2 (real n)\<rfloor> < 32" by linarith
  with nonneg show "\<lfloor>log 2 (real n)\<rfloor> < 32" by linarith
qed

lemma floor_log2_bounds:
  fixes x :: u32
  assumes "x \<noteq> 0"
  shows "0 \<le> \<lfloor>log 2 (real (unat x))\<rfloor>" and "\<lfloor>log 2 (real (unat x))\<rfloor> < 32"
    and "nat \<lfloor>log 2 (real (unat x))\<rfloor> = floorlog 2 (unat x) - 1"
proof -
  from assms have pos: "0 < unat x" by (simp add: unat_gt_0)
  have less: "unat x < 2 ^ 32" using unsigned_less [of x] by simp
  show "0 \<le> \<lfloor>log 2 (real (unat x))\<rfloor>" by (rule floor_log2_nat(1) [OF pos less])
  show "\<lfloor>log 2 (real (unat x))\<rfloor> < 32" by (rule floor_log2_nat(2) [OF pos less])
  show "nat \<lfloor>log 2 (real (unat x))\<rfloor> = floorlog 2 (unat x) - 1"
    by (rule floor_log2_nat(3) [OF pos less])
qed

lemma get_level_eq:
  assumes "lhs \<noteq> rhs"
  shows "get_level lhs rhs = Inr (word_of_int \<lfloor>log 2 (real (unat (lhs XOR rhs)))\<rfloor>)"
  using assms by (simp add: get_level_def Let_def log_def xor_eq_0_iff)



text \<open>
  The five rounds of the source reverse the order of the 32 bits, and the interpreter
  agrees with the level of the spec on every arc of a node.
\<close>

lemma reverse_bits_eq_word_reverse: "reverse_bits x = word_reverse x"
  by (rule bit_eqI) (auto simp: bit_reverse_bits bit_word_reverse_iff dest: bit_imp_le_length)

lemma spec_level_less_32: "id_a \<noteq> id_b \<Longrightarrow> spec_level id_a id_b < 32"
proof -
  assume "id_a \<noteq> id_b"
  then have "reverse_bits id_a XOR reverse_bits id_b \<noteq> 0"
    by (simp add: xor_eq_0_iff reverse_bits_inject)
  from floor_log2_bounds(1,2) [OF this] show ?thesis
    unfolding spec_level_def reverse_bits_eq_word_reverse [symmetric] by linarith
qed

lemma get_level_spec_level:
  assumes "id_a \<noteq> id_b"
  shows "\<exists>level. get_level (reverse_bits id_a) (reverse_bits id_b) = Inr level
    \<and> unat level = spec_level id_a id_b"
proof -
  from assms have rne: "reverse_bits id_a \<noteq> reverse_bits id_b" by (simp add: reverse_bits_inject)
  then have nz: "reverse_bits id_a XOR reverse_bits id_b \<noteq> 0" by (simp add: xor_eq_0_iff)
  let ?l = "\<lfloor>log 2 (real (unat (reverse_bits id_a XOR reverse_bits id_b)))\<rfloor>"
  have "uint (word_of_int ?l :: u32) = ?l"
    using floor_log2_bounds(1,2) [OF nz] by (simp add: uint_word_of_int)
  then have "unat (word_of_int ?l :: u32) = nat ?l" by (simp only: unat_eq_nat_uint)
  then have "unat (word_of_int ?l :: u32) = spec_level id_a id_b"
    unfolding spec_level_def reverse_bits_eq_word_reverse [symmetric] .
  with get_level_eq [OF rne] show ?thesis by blast
qed

lemma length_add_border_arc [simp]:
  "length (add_border_arc graph level nid tid border_vertices) = length border_vertices"
  by (simp add: add_border_arc_def)

lemma visit_edge_spec:
  assumes tid: "unat (edge_target edge) < length bisection_ids"
    and nid: "nid < length graph" and tg: "unat (edge_target edge) < length graph"
    and len: "length border_vertices = 33"
  shows "visit_edge graph bisection_ids nid (reverse_bits (bisection_ids ! nid)) edge border_vertices
    = Inr (if bisection_ids ! nid \<noteq> bisection_ids ! unat (edge_target edge)
           then add_border_arc graph
                  (spec_level (bisection_ids ! nid) (bisection_ids ! unat (edge_target edge)))
                  nid (unat (edge_target edge)) border_vertices
           else border_vertices)"
proof (cases "bisection_ids ! nid = bisection_ids ! unat (edge_target edge)")
  case True
  then show ?thesis using tid by (simp add: visit_edge_def at_index_def)
next
  case False
  from get_level_spec_level [OF False] obtain level where
    gl: "get_level (reverse_bits (bisection_ids ! nid))
           (reverse_bits (bisection_ids ! unat (edge_target edge))) = Inr level"
    and ul: "unat level = spec_level (bisection_ids ! nid) (bisection_ids ! unat (edge_target edge))"
    by blast
  from spec_level_less_32 [OF False] ul len have lt: "unat level < length border_vertices" by simp
  from False have rne: "reverse_bits (bisection_ids ! nid)
      \<noteq> reverse_bits (bisection_ids ! unat (edge_target edge))"
    by (simp add: reverse_bits_inject)
  show ?thesis
    using False rne tid nid tg lt gl
    by (simp add: visit_edge_def at_index_def Node_def push_back_at_def add_border_arc_def
        ul [symmetric])
qed

lemma for_each_visit_edge_spec:
  assumes "\<forall>edge\<in>set es. unat (edge_target edge) < length bisection_ids
      \<and> unat (edge_target edge) < length graph"
    and "nid < length graph" and "length border_vertices = 33"
  shows "for_each (visit_edge graph bisection_ids nid (reverse_bits (bisection_ids ! nid))) es
      border_vertices
    = Inr (fold (\<lambda>edge acc.
          if bisection_ids ! nid \<noteq> bisection_ids ! unat (edge_target edge)
          then add_border_arc graph
                 (spec_level (bisection_ids ! nid) (bisection_ids ! unat (edge_target edge)))
                 nid (unat (edge_target edge)) acc
          else acc) es border_vertices)"
  using assms
proof (induction es arbitrary: border_vertices)
  case Nil
  show ?case by simp
next
  case (Cons edge es)
  from Cons.prems have step: "visit_edge graph bisection_ids nid (reverse_bits (bisection_ids ! nid))
      edge border_vertices
    = Inr (if bisection_ids ! nid \<noteq> bisection_ids ! unat (edge_target edge)
           then add_border_arc graph
                  (spec_level (bisection_ids ! nid) (bisection_ids ! unat (edge_target edge)))
                  nid (unat (edge_target edge)) border_vertices
           else border_vertices)"
    by (intro visit_edge_spec) simp_all
  show ?case
  proof (cases "bisection_ids ! nid = bisection_ids ! unat (edge_target edge)")
    case True
    with step Cons.prems Cons.IH [of border_vertices] show ?thesis by simp
  next
    case False
    with step Cons.prems
      Cons.IH [of "add_border_arc graph
                  (spec_level (bisection_ids ! nid) (bisection_ids ! unat (edge_target edge)))
                  nid (unat (edge_target edge)) border_vertices"]
    show ?thesis by simp
  qed
qed

lemma visit_node_spec:
  assumes nid: "nid < length graph" and nid': "nid < length bisection_ids"
    and es: "\<forall>edge\<in>set (out_edges (graph ! nid)).
        unat (edge_target edge) < length bisection_ids \<and> unat (edge_target edge) < length graph"
    and len: "length border_vertices = 33"
  shows "visit_node graph bisection_ids nid border_vertices
    = Inr (fold (\<lambda>edge acc.
          if bisection_ids ! nid \<noteq> bisection_ids ! unat (edge_target edge)
          then add_border_arc graph
                 (spec_level (bisection_ids ! nid) (bisection_ids ! unat (edge_target edge)))
                 nid (unat (edge_target edge)) acc
          else acc) (out_edges (graph ! nid)) border_vertices)"
  using for_each_visit_edge_spec [OF es nid len] nid nid'
  by (simp add: visit_node_def at_index_def Edges_def)


text \<open>
  C3. For every node and every outgoing arc of it, the interpreter of \<^verbatim>\<open>LogGeojson\<close>
  (lines 166-176) files the arc under a level exactly when the partition identifiers of
  its two ends are distinct, and that level is \<open>floor (log2 (reverse_bits id_a XOR
  reverse_bits id_b))\<close>, with the reversal of the 32-bit order on both identifiers.
\<close>

theorem C3_interpreter_level_is_spec_level:
  assumes "nid < length graph" and "nid < length bisection_ids"
    and "\<forall>edge\<in>set (out_edges (graph ! nid)).
        unat (edge_target edge) < length bisection_ids \<and> unat (edge_target edge) < length graph"
    and "length border_vertices = 33"
  shows "visit_node graph bisection_ids nid border_vertices
    = Inr (fold (\<lambda>edge acc.
          if bisection_ids ! nid \<noteq> bisection_ids ! unat (edge_target edge)
          then add_border_arc graph
                 (spec_level (bisection_ids ! nid) (bisection_ids ! unat (edge_target edge)))
                 nid (unat (edge_target edge)) acc
          else acc) (out_edges (graph ! nid)) border_vertices)"
  using assms by (rule visit_node_spec)

lemma spec_level_5_1: "spec_level 5 1 = 29"
proof -
  have "word_reverse (5::u32) XOR word_reverse 1 = (0x20000000 :: u32)"
    unfolding reverse_bits_eq_word_reverse [symmetric] reverse_bits_xor
    by (simp add: reverse_bits_def)
  moreover have "nat \<lfloor>log 2 (real (536870912::nat))\<rfloor> = floorlog 2 536870912 - 1"
    by (rule floor_log2_nat(3)) simp_all
  ultimately show ?thesis
    by (simp add: spec_level_def compute_floorlog)
qed

theorem C3_interpreter_level_is_spec_level_witness:
  "visit_node
      [\<lparr>coordinate = \<lparr>lon = 13, lat = 52\<rparr>,
         out_edges = [\<lparr>edge_target = 1\<rparr>, \<lparr>edge_target = 2\<rparr>]\<rparr>,
       \<lparr>coordinate = \<lparr>lon = 14, lat = 53\<rparr>, out_edges = []\<rparr>,
       \<lparr>coordinate = \<lparr>lon = 15, lat = 54\<rparr>, out_edges = []\<rparr>]
      [5, 1, 5] 0 (replicate 33 [])
    = Inr ((replicate 33 [])[29 := [\<lparr>lon = 13, lat = 52\<rparr>, \<lparr>lon = 14, lat = 53\<rparr>]])"
proof -
  let ?g = "[\<lparr>coordinate = \<lparr>lon = 13, lat = 52\<rparr>,
         out_edges = [\<lparr>edge_target = 1\<rparr>, \<lparr>edge_target = 2\<rparr>]\<rparr>,
       \<lparr>coordinate = \<lparr>lon = 14, lat = 53\<rparr>, out_edges = []\<rparr>,
       \<lparr>coordinate = \<lparr>lon = 15, lat = 54\<rparr>, out_edges = []\<rparr>]"
  have a: "(0::nat) < length ?g" by simp
  have b: "(0::nat) < length [5, 1, 5 :: u32]" by simp
  have c: "\<forall>edge\<in>set (out_edges (?g ! 0)).
        unat (edge_target edge) < length [5, 1, 5 :: u32] \<and> unat (edge_target edge) < length ?g"
    by simp
  have d: "length (replicate 33 [] :: Coordinate list list) = 33" by simp
  from C3_interpreter_level_is_spec_level [OF a b c d] show ?thesis
    by (simp add: spec_level_5_1 add_border_arc_def)
qed




text \<open>
  C5. For an arc between two nodes with equal partition identifiers, the interpreter
  computes no level and leaves every level's border vertices as they are: the arc is an
  interior one.
\<close>

theorem C5_equal_ids_no_boundary:
  "nid < length bisection_ids \<Longrightarrow>
   unat (edge_target edge) < length bisection_ids \<Longrightarrow>
   bisection_ids ! nid = bisection_ids ! unat (edge_target edge) \<Longrightarrow>
     visit_edge graph bisection_ids nid (reverse_bits (bisection_ids ! nid)) edge border_vertices
       = Inr border_vertices"
  by (simp add: visit_edge_def at_index_def)

theorem C5_equal_ids_no_boundary_witness:
  "(0::nat) < length [3, 3 :: u32] \<and> unat (edge_target \<lparr>edge_target = 1\<rparr>) < length [3, 3 :: u32]
    \<and> [3, 3 :: u32] ! 0 = [3, 3] ! unat (edge_target \<lparr>edge_target = 1\<rparr>)
    \<and> visit_edge
          [\<lparr>coordinate = \<lparr>lon = 13, lat = 52\<rparr>, out_edges = [\<lparr>edge_target = 1\<rparr>]\<rparr>,
           \<lparr>coordinate = \<lparr>lon = 14, lat = 53\<rparr>, out_edges = []\<rparr>]
          [3, 3] 0 (reverse_bits ([3, 3] ! 0)) \<lparr>edge_target = 1\<rparr> (replicate 33 [])
        = Inr (replicate 33 [])"
  using C5_equal_ids_no_boundary [of 0 "[3, 3]" "\<lparr>edge_target = 1\<rparr>"
      "[\<lparr>coordinate = \<lparr>lon = 13, lat = 52\<rparr>, out_edges = [\<lparr>edge_target = 1\<rparr>]\<rparr>,
        \<lparr>coordinate = \<lparr>lon = 14, lat = 53\<rparr>, out_edges = []\<rparr>]" "replicate 33 []"]
  by simp

text \<open>
  The other branch of the guard: an arc between two nodes whose reversed identifiers
  differ adds the coordinates of both nodes to the border vertices of its level.
\<close>

lemma visit_edge_boundary:
  assumes "unat (edge_target edge) < length bisection_ids"
    and "source_id \<noteq> reverse_bits (bisection_ids ! unat (edge_target edge))"
    and "get_level source_id (reverse_bits (bisection_ids ! unat (edge_target edge))) = Inr level"
    and "nid < length graph" and "unat (edge_target edge) < length graph"
    and "unat level < length border_vertices"
  shows "visit_edge graph bisection_ids nid source_id edge border_vertices
    = Inr (border_vertices[unat level := border_vertices ! unat level
        @ [coordinate (graph ! nid), coordinate (graph ! unat (edge_target edge))]])"
  using assms by (simp add: visit_edge_def at_index_def Node_def push_back_at_def)

section \<open>Reading fixed-width fields\<close>

lemma length_to_le [simp]: "length (to_le n w) = n"
  by (simp add: to_le_def)

lemma bit_from_le:
  "bit (from_le bs :: 'a::len word) k
    \<longleftrightarrow> k < LENGTH('a) \<and> k div 8 < length bs \<and> bit (bs ! (k div 8)) (k mod 8)"
proof -
  have "bit (horner_sum uint (2 ^ LENGTH(8)) bs) k
      \<longleftrightarrow> k div LENGTH(8) < length bs \<and> bit (bs ! (k div LENGTH(8))) (k mod LENGTH(8))"
    by (rule bit_horner_sum_uint_exp_iff)
  then show ?thesis
    by (simp add: from_le_def bit_word_of_int_iff)
qed

lemma from_le_to_le:
  fixes w :: "'a::len word"
  assumes "LENGTH('a) \<le> 8 * n"
  shows "from_le (to_le n w) = w"
proof (rule bit_eqI)
  fix k
  assume "possible_bit TYPE('a word) k"
  show "bit (from_le (to_le n w) :: 'a word) k \<longleftrightarrow> bit w k"
  proof (cases "k < LENGTH('a)")
    case True
    with assms have "k div 8 < n" by auto
    then show ?thesis
      using True by (simp add: bit_from_le to_le_def bit_ucast_iff bit_drop_bit_eq)
  next
    case False
    then show ?thesis by (auto simp: bit_from_le dest: bit_imp_le_length)
  qed
qed

lemma ReadOne_u32 [simp]: "ReadOne (to_le 4 (x :: u32) @ rest) = Inr (x, rest)"
  by (simp add: ReadOne_def ReadBytes_def from_le_to_le)

lemma ReadElementCount64_to_le [simp]:
  "ReadElementCount64 (to_le 8 (n :: u64) @ rest) = Inr (n, rest)"
  by (simp add: ReadElementCount64_def ReadOne_def ReadBytes_def from_le_to_le)

section \<open>The mapping tables\<close>

lemma record_parts [simp]:
  "head_of (nu, nv, head, tail) = head"
  "tail_of (nu, nv, head, tail) = tail"
  "nodes_of (nu, nv, head, tail) = \<lparr>u = nu, v = nv\<rparr>"
  by (simp_all add: head_of_def tail_of_def nodes_of_def)

lemma read_mappings_encoded:
  "read_mappings (length recs) (concat (map encode_mapping recs) @ rest) m
     = Inr (insert_records recs m, rest)"
proof (induction recs arbitrary: m)
  case Nil
  show ?case by simp
next
  case (Cons r recs)
  obtain nu nv head tail where r: "r = (nu, nv, head, tail)" by (cases r) auto
  show ?case
    using Cons.IH by (simp add: r encode_mapping_def)
qed

lemma heads_insert_records:
  "heads (insert_records recs m) k
     = (case heads m k of Some x \<Rightarrow> Some x | None \<Rightarrow> map_of (map (\<lambda>r. (head_of r, nodes_of r)) recs) k)"
proof (induction recs arbitrary: m)
  case Nil
  show ?case by (simp split: option.split)
next
  case (Cons r recs)
  obtain nu nv head tail where r: "r = (nu, nv, head, tail)" by (cases r) auto
  show ?case
    by (simp add: Cons.IH r unordered_map_insert_def split: option.split)
qed

lemma tails_insert_records:
  "tails (insert_records recs m) k
     = (case tails m k of Some x \<Rightarrow> Some x | None \<Rightarrow> map_of (map (\<lambda>r. (tail_of r, nodes_of r)) recs) k)"
proof (induction recs arbitrary: m)
  case Nil
  show ?case by (simp split: option.split)
next
  case (Cons r recs)
  obtain nu nv head tail where r: "r = (nu, nv, head, tail)" by (cases r) auto
  show ?case
    by (simp add: Cons.IH r unordered_map_insert_def split: option.split)
qed

lemma map_of_first_occurrence:
  assumes "i < length kvs" and "\<forall>j<i. fst (kvs ! j) \<noteq> fst (kvs ! i)"
  shows "map_of kvs (fst (kvs ! i)) = Some (snd (kvs ! i))"
  using assms
proof (induction kvs arbitrary: i)
  case Nil
  then show ?case by simp
next
  case (Cons kv kvs)
  show ?case
  proof (cases i)
    case 0
    then show ?thesis by (cases kv) simp
  next
    case (Suc i')
    from Cons.prems(2) Suc have ne: "fst kv \<noteq> fst (kvs ! i')" by fastforce
    from Cons.prems Suc have "\<forall>j<i'. fst (kvs ! j) \<noteq> fst (kvs ! i')" by fastforce
    with Cons.IH [of i'] Cons.prems(1) Suc
    have "map_of kvs (fst (kvs ! i')) = Some (snd (kvs ! i'))" by simp
    with ne Suc show ?thesis by (cases kv) auto
  qed
qed

lemma load_mapping_encoded:
  assumes bytes: "fs path = Some (valid @ to_le 8 (word_of_nat (length recs) :: u64)
                    @ concat (map encode_mapping recs) @ rest)"
    and len: "length recs < 2 ^ 64"
  shows "LoadNodeBasedGraphToEdgeBasedGraphMapping valid fs path
      = Inr (insert_records recs \<lparr>heads = Map.empty, tails = Map.empty\<rparr>)"
proof -
  have "unat (word_of_nat (length recs) :: u64) = length recs"
    using len by (simp add: unat_of_nat)
  then show ?thesis
    by (simp add: LoadNodeBasedGraphToEdgeBasedGraphMapping_def FileReader_open_def bytes
        ReadBytes_def NodeBasedGraphToEdgeBasedGraphMapping_ctor_def read_mappings_encoded)
qed

section \<open>The graph loader\<close>

lemma resize_Nil [simp]:
  "resize max_size dflt n [] = (if max_size < n then Inl LengthError else Inr (replicate n dflt))"
  by (simp add: resize_def)

lemma chunk_of_concat:
  assumes "\<forall>x\<in>set xs. length (enc x) = sz" and "i < length xs"
  shows "take sz (drop (i * sz) (concat (map enc xs) @ rest)) = enc (xs ! i)"
  using assms
proof (induction xs arbitrary: i)
  case Nil
  then show ?case by simp
next
  case (Cons x xs)
  show ?case
  proof (cases i)
    case 0
    with Cons.prems show ?thesis by simp
  next
    case (Suc i')
    with Cons.prems have "take sz (drop (i' * sz) (concat (map enc xs) @ rest)) = enc (xs ! i')"
      by (intro Cons.IH) simp_all
    with Suc Cons.prems show ?thesis by (simp add: add.commute)
  qed
qed

lemma length_concat_fixed:
  "\<forall>x\<in>set xs. length (enc x) = sz \<Longrightarrow> length (concat (map enc xs)) = length xs * sz"
  by (induction xs) simp_all

lemma ReadInto_encoded:
  assumes sz: "\<And>x. length (enc x) = sz" and dec: "\<And>x. decode (enc x) = x"
    and len: "length target_vec = length xs"
  shows "ReadInto decode sz target_vec (concat (map enc xs) @ rest) = Inr (xs, rest)"
proof -
  have l: "length (concat (map enc xs)) = length xs * sz"
    by (rule length_concat_fixed) (simp add: sz)
  have "map (\<lambda>i. decode (take sz (drop (i * sz) (concat (map enc xs))))) [0..<length xs] = xs"
  proof (rule nth_equalityI)
    show "length (map (\<lambda>i. decode (take sz (drop (i * sz) (concat (map enc xs))))) [0..<length xs])
        = length xs" by simp
  next
    fix i
    assume "i < length (map (\<lambda>i. decode (take sz (drop (i * sz) (concat (map enc xs))))) [0..<length xs])"
    then have i: "i < length xs" by simp
    have "take sz (drop (i * sz) (concat (map enc xs) @ [])) = enc (xs ! i)"
      by (rule chunk_of_concat) (simp_all add: sz i)
    with i show "map (\<lambda>i. decode (take sz (drop (i * sz) (concat (map enc xs))))) [0..<length xs] ! i
        = xs ! i" by (simp add: dec)
  qed
  then show ?thesis
    by (simp add: ReadInto_def ReadBytes_def len l)
qed



lemma length_encode_edge [simp]: "length (encode_edge e) = 8"
  by (simp add: encode_edge_def)

lemma length_encode_coordinate [simp]: "length (encode_coordinate c) = 8"
  by (simp add: encode_coordinate_def)

lemma decode_encode_edge [simp]: "decode_edge (encode_edge e) = e"
  by (simp add: decode_edge_def encode_edge_def from_le_to_le)

lemma decode_encode_coordinate [simp]: "decode_coordinate (encode_coordinate c) = c"
  by (simp add: decode_coordinate_def encode_coordinate_def from_le_to_le)

section \<open>The stored identifiers\<close>

lemma length_assign_bits [simp]: "length (assign_bits side depth cell ids) = length ids"
proof -
  have "length (fold (\<lambda>n acc. if side n then acc[n := acc ! n OR push_bit depth 1] else acc) cell ids)
      = length ids"
    by (induction cell arbitrary: ids) simp_all
  then show ?thesis by (simp add: assign_bits_def)
qed

lemma length_bisect:
  "bisect choose_side maximum_cell_size k cell ids = Inr ids' \<Longrightarrow> length ids' = length ids"
proof (induction k arbitrary: cell ids ids')
  case 0
  then show ?case by (simp split: if_splits)
next
  case (Suc k)
  show ?case
  proof (cases "length cell \<le> maximum_cell_size")
    case True
    with Suc.prems show ?thesis by simp
  next
    case False
    let ?side = "choose_side cell"
    let ?ids1 = "assign_bits ?side (31 - k) cell ids"
    from Suc.prems False obtain ids2 where
      l: "bisect choose_side maximum_cell_size k (filter (\<lambda>n. \<not> ?side n) cell) ?ids1 = Inr ids2"
      and r: "bisect choose_side maximum_cell_size k (filter ?side cell) ids2 = Inr ids'"
      by (auto simp: Let_def split: sum.splits)
    from Suc.IH [OF r] Suc.IH [OF l] show ?thesis by simp
  qed
qed

lemma bisect_leaf:
  "length cell \<le> maximum_cell_size \<Longrightarrow> bisect choose_side maximum_cell_size k cell ids = Inr ids"
  by (cases k) simp_all

lemma bisect_split:
  "\<not> length cell \<le> maximum_cell_size \<Longrightarrow>
   bisect choose_side maximum_cell_size (numeral w) cell ids =
     (case bisect choose_side maximum_cell_size (pred_numeral w)
             (filter (\<lambda>n. \<not> choose_side cell n) cell)
             (assign_bits (choose_side cell) (31 - pred_numeral w) cell ids) of
        Inl e \<Rightarrow> Inl e
      | Inr ids2 \<Rightarrow>
          bisect choose_side maximum_cell_size (pred_numeral w) (filter (choose_side cell) cell) ids2)"
  by (simp add: numeral_eq_Suc Let_def)

lemma upt_4: "[0..<4] = [0, 1, 2, 3]"
  by code_simp

section \<open>Lookup in the mapping\<close>

text \<open>
  C8. For every EdgeID that is a key of both the heads table and the tails table,
  \<open>Lookup\<close> consults heads first, so it returns the pair of the heads entry.
\<close>

theorem C8_lookup_prefers_heads:
  "heads m e = Some h \<Longrightarrow> tails m e = Some t \<Longrightarrow> Lookup assertions special m e = Inr h"
  by (simp add: Lookup_def)

theorem C8_lookup_prefers_heads_witness:
  "heads \<lparr>heads = [5 \<mapsto> \<lparr>u = 1, v = 2\<rparr>], tails = [5 \<mapsto> \<lparr>u = 3, v = 4\<rparr>]\<rparr> 5 = Some \<lparr>u = 1, v = 2\<rparr>
   \<and> tails \<lparr>heads = [5 \<mapsto> \<lparr>u = 1, v = 2\<rparr>], tails = [5 \<mapsto> \<lparr>u = 3, v = 4\<rparr>]\<rparr> 5 = Some \<lparr>u = 3, v = 4\<rparr>
   \<and> Lookup True 0xFFFFFFFF \<lparr>heads = [5 \<mapsto> \<lparr>u = 1, v = 2\<rparr>], tails = [5 \<mapsto> \<lparr>u = 3, v = 4\<rparr>]\<rparr> 5
        = Inr \<lparr>u = 1, v = 2\<rparr>"
  using C8_lookup_prefers_heads [of "\<lparr>heads = [5 \<mapsto> \<lparr>u = 1, v = 2\<rparr>], tails = [5 \<mapsto> \<lparr>u = 3, v = 4\<rparr>]\<rparr>" 5
      "\<lparr>u = 1, v = 2\<rparr>" "\<lparr>u = 3, v = 4\<rparr>" True "0xFFFFFFFF"]
  by simp

lemma load_mapping_count_0:
  assumes "fs path = Some (valid @ to_le 8 (0::u64) @ rest)"
  shows "LoadNodeBasedGraphToEdgeBasedGraphMapping valid fs path
      = Inr \<lparr>heads = Map.empty, tails = Map.empty\<rparr>"
  using load_mapping_encoded [of fs path valid "[]" rest] assms by simp

text \<open>
  C1, as the code has it. For every EdgeID \<open>e\<close> that is a key of neither table, \<open>Lookup\<close>
  reaches \<^verbatim>\<open>BOOST_ASSERT(false)\<close>: a build with assertions stops there, and a build without
  them returns the sentinel pair \<^verbatim>\<open>(SPECIAL_NODEID, SPECIAL_NODEID)\<close>. A mapping file with
  count 0 loads as two empty tables, so every \<open>e\<close> is such a key after loading it.
\<close>

theorem C1_lookup_miss_asserts_or_returns_sentinel:
  "(heads m e = None \<longrightarrow> tails m e = None \<longrightarrow>
      Lookup True special m e = Inl AssertionFailed
      \<and> Lookup False special m e = Inr \<lparr>u = special, v = special\<rparr>)
   \<and> (fs path = Some (valid @ to_le 8 (0::u64) @ rest) \<longrightarrow>
        LoadNodeBasedGraphToEdgeBasedGraphMapping valid fs path
          = Inr \<lparr>heads = Map.empty, tails = Map.empty\<rparr>)"
  by (simp add: Lookup_def load_mapping_count_0)

theorem C1_lookup_miss_asserts_or_returns_sentinel_witness:
  "heads \<lparr>heads = Map.empty, tails = Map.empty\<rparr> (7::EdgeID) = None
   \<and> tails \<lparr>heads = Map.empty, tails = Map.empty\<rparr> (7::EdgeID) = None
   \<and> Lookup True 0xFFFFFFFF \<lparr>heads = Map.empty, tails = Map.empty\<rparr> 7 = Inl AssertionFailed
   \<and> Lookup False 0xFFFFFFFF \<lparr>heads = Map.empty, tails = Map.empty\<rparr> 7
        = Inr \<lparr>u = 0xFFFFFFFF, v = 0xFFFFFFFF\<rparr>
   \<and> [''map.nbg_to_ebg'' \<mapsto> [0x4F, 0x53, 0x52, 0x4E] @ to_le 8 (0::u64) @ []] ''map.nbg_to_ebg''
        = Some ([0x4F, 0x53, 0x52, 0x4E] @ to_le 8 (0::u64) @ [])
   \<and> LoadNodeBasedGraphToEdgeBasedGraphMapping [0x4F, 0x53, 0x52, 0x4E]
        [''map.nbg_to_ebg'' \<mapsto> [0x4F, 0x53, 0x52, 0x4E] @ to_le 8 (0::u64) @ []] ''map.nbg_to_ebg''
        = Inr \<lparr>heads = Map.empty, tails = Map.empty\<rparr>"
  using C1_lookup_miss_asserts_or_returns_sentinel
    [where m = "\<lparr>heads = Map.empty, tails = Map.empty\<rparr>" and e = 7 and special = "0xFFFFFFFF"
      and fs = "[''map.nbg_to_ebg'' \<mapsto> [0x4F, 0x53, 0x52, 0x4E] @ to_le 8 (0::u64) @ []]"
      and path = "''map.nbg_to_ebg''" and valid = "[0x4F, 0x53, 0x52, 0x4E]" and rest = "[]"]
  by simp

text \<open>
  Against C1 as the spec words it: in a build without assertions, after a file with
  count 0 has been loaded, \<open>Lookup 7\<close> returns the sentinel pair.
\<close>

theorem C1_sentinel_counterexample:
  "LoadNodeBasedGraphToEdgeBasedGraphMapping [0x4F, 0x53, 0x52, 0x4E]
      [''map.nbg_to_ebg'' \<mapsto> [0x4F, 0x53, 0x52, 0x4E, 0, 0, 0, 0, 0, 0, 0, 0]] ''map.nbg_to_ebg''
     = Inr \<lparr>heads = Map.empty, tails = Map.empty\<rparr>
   \<and> Lookup False 0xFFFFFFFF \<lparr>heads = Map.empty, tails = Map.empty\<rparr> 7
     = Inr \<lparr>u = 0xFFFFFFFF, v = 0xFFFFFFFF\<rparr>"
  by (simp add: LoadNodeBasedGraphToEdgeBasedGraphMapping_def FileReader_open_def ReadBytes_def
      NodeBasedGraphToEdgeBasedGraphMapping_ctor_def ReadElementCount64_def ReadOne_def
      from_le_def Lookup_def)

text \<open>
  C2, as the code has it. For every record \<open>(u, v, head, tail)\<close> read from a mapping file,
  after loading, \<open>Lookup head\<close> returns exactly \<open>(u, v)\<close> when no earlier record has the same
  head, and \<open>Lookup tail\<close> returns exactly \<open>(u, v)\<close> when no record has \<open>tail\<close> as its head
  and no earlier record has the same tail.
\<close>

theorem C2_lookup_roundtrip_first_occurrence:
  assumes bytes: "fs path = Some (valid @ to_le 8 (word_of_nat (length recs) :: u64)
                    @ concat (map encode_mapping recs) @ rest)"
    and len: "length recs < 2 ^ 64"
    and i: "i < length recs"
  shows "\<exists>m. LoadNodeBasedGraphToEdgeBasedGraphMapping valid fs path = Inr m
    \<and> ((\<forall>j<i. head_of (recs ! j) \<noteq> head_of (recs ! i)) \<longrightarrow>
          Lookup assertions special m (head_of (recs ! i)) = Inr (nodes_of (recs ! i)))
    \<and> ((\<forall>j<length recs. head_of (recs ! j) \<noteq> tail_of (recs ! i))
          \<and> (\<forall>j<i. tail_of (recs ! j) \<noteq> tail_of (recs ! i)) \<longrightarrow>
          Lookup assertions special m (tail_of (recs ! i)) = Inr (nodes_of (recs ! i)))"
proof -
  let ?m = "insert_records recs \<lparr>heads = Map.empty, tails = Map.empty\<rparr>"
  let ?hs = "map (\<lambda>r. (head_of r, nodes_of r)) recs"
  let ?ts = "map (\<lambda>r. (tail_of r, nodes_of r)) recs"
  have load: "LoadNodeBasedGraphToEdgeBasedGraphMapping valid fs path = Inr ?m"
    using bytes len by (rule load_mapping_encoded [of fs path valid recs rest])
  have hm: "heads ?m k = map_of ?hs k" for k by (simp add: heads_insert_records)
  have tm: "tails ?m k = map_of ?ts k" for k by (simp add: tails_insert_records)
  have h: "Lookup assertions special ?m (head_of (recs ! i)) = Inr (nodes_of (recs ! i))"
    if "\<forall>j<i. head_of (recs ! j) \<noteq> head_of (recs ! i)"
  proof -
    have "map_of ?hs (fst (?hs ! i)) = Some (snd (?hs ! i))"
      using i that by (intro map_of_first_occurrence) simp_all
    then show ?thesis using i by (simp add: Lookup_def hm)
  qed
  have t: "Lookup assertions special ?m (tail_of (recs ! i)) = Inr (nodes_of (recs ! i))"
    if nh: "\<forall>j<length recs. head_of (recs ! j) \<noteq> tail_of (recs ! i)"
      and nt: "\<forall>j<i. tail_of (recs ! j) \<noteq> tail_of (recs ! i)"
  proof -
    have "tail_of (recs ! i) \<notin> fst ` set ?hs"
    proof
      assume "tail_of (recs ! i) \<in> fst ` set ?hs"
      then obtain r where "r \<in> set recs" and "head_of r = tail_of (recs ! i)" by auto
      then obtain j where "j < length recs" and "head_of (recs ! j) = tail_of (recs ! i)"
        by (auto simp: in_set_conv_nth)
      with nh show False by blast
    qed
    then have none: "map_of ?hs (tail_of (recs ! i)) = None"
      by (simp add: map_of_eq_None_iff)
    have "map_of ?ts (fst (?ts ! i)) = Some (snd (?ts ! i))"
      using i nt by (intro map_of_first_occurrence) simp_all
    then show ?thesis using i none by (simp add: Lookup_def hm tm)
  qed
  from load h t show ?thesis by blast
qed

theorem C2_lookup_roundtrip_first_occurrence_witness:
  "\<exists>m. LoadNodeBasedGraphToEdgeBasedGraphMapping [0x4F, 0x53, 0x52, 0x4E]
        [''map.nbg_to_ebg'' \<mapsto> [0x4F, 0x53, 0x52, 0x4E] @ to_le 8 (2::u64)
            @ encode_mapping (1, 2, 5, 6) @ encode_mapping (3, 4, 8, 9)] ''map.nbg_to_ebg'' = Inr m
     \<and> Lookup True 0xFFFFFFFF m 8 = Inr \<lparr>u = 3, v = 4\<rparr>
     \<and> Lookup True 0xFFFFFFFF m 9 = Inr \<lparr>u = 3, v = 4\<rparr>"
proof -
  let ?recs = "[(1, 2, 5, 6), (3, 4, 8, 9)] :: mapping_record list"
  let ?fs = "[''map.nbg_to_ebg'' \<mapsto> [0x4F, 0x53, 0x52, 0x4E]
      @ to_le 8 (word_of_nat (length ?recs) :: u64) @ concat (map encode_mapping ?recs) @ []]"
  have bytes: "?fs ''map.nbg_to_ebg'' = Some ([0x4F, 0x53, 0x52, 0x4E]
      @ to_le 8 (word_of_nat (length ?recs) :: u64) @ concat (map encode_mapping ?recs) @ [])"
    by simp
  have len: "length ?recs < 2 ^ 64" by simp
  have i: "(1::nat) < length ?recs" by simp
  have nh: "\<forall>j<1. head_of (?recs ! j) \<noteq> head_of (?recs ! 1)" by simp
  have nt: "(\<forall>j<length ?recs. head_of (?recs ! j) \<noteq> tail_of (?recs ! 1))
      \<and> (\<forall>j<1. tail_of (?recs ! j) \<noteq> tail_of (?recs ! 1))"
  proof -
    have "\<forall>r\<in>set ?recs. head_of r \<noteq> tail_of (?recs ! 1)" by simp
    then have "\<forall>j<length ?recs. head_of (?recs ! j) \<noteq> tail_of (?recs ! 1)"
      by (simp only: all_set_conv_all_nth)
    then show ?thesis by simp
  qed
  from C2_lookup_roundtrip_first_occurrence
    [of ?fs "''map.nbg_to_ebg''" "[0x4F, 0x53, 0x52, 0x4E]" ?recs "[]" 1 True "0xFFFFFFFF",
      OF bytes len i]
  obtain m where "LoadNodeBasedGraphToEdgeBasedGraphMapping [0x4F, 0x53, 0x52, 0x4E] ?fs
        ''map.nbg_to_ebg'' = Inr m"
    and "(\<forall>j<1. head_of (?recs ! j) \<noteq> head_of (?recs ! 1)) \<longrightarrow>
          Lookup True 0xFFFFFFFF m (head_of (?recs ! 1)) = Inr (nodes_of (?recs ! 1))"
    and "(\<forall>j<length ?recs. head_of (?recs ! j) \<noteq> tail_of (?recs ! 1))
          \<and> (\<forall>j<1. tail_of (?recs ! j) \<noteq> tail_of (?recs ! 1)) \<longrightarrow>
          Lookup True 0xFFFFFFFF m (tail_of (?recs ! 1)) = Inr (nodes_of (?recs ! 1))"
    by blast
  with nh nt show ?thesis by (intro exI [of _ m]) simp
qed

text \<open>
  Against C2 as the spec words it: a file with the records \<open>(1, 2, 5, 6)\<close>,
  \<open>(3, 4, 5, 6)\<close> and \<open>(7, 8, 9, 5)\<close>. The second record has the head and the tail of
  the first, and the tail of the third is the head of the first. \<open>Lookup 5\<close> and
  \<open>Lookup 6\<close> return the pair \<open>(1, 2)\<close> of the first record, which is neither the pair
  \<open>(3, 4)\<close> written for the second nor the pair \<open>(7, 8)\<close> written for the third.
\<close>

theorem C2_duplicate_key_counterexample:
  "LoadNodeBasedGraphToEdgeBasedGraphMapping [0x4F, 0x53, 0x52, 0x4E]
      [''map.nbg_to_ebg'' \<mapsto> [0x4F, 0x53, 0x52, 0x4E] @ to_le 8 (3::u64)
          @ encode_mapping (1, 2, 5, 6) @ encode_mapping (3, 4, 5, 6)
          @ encode_mapping (7, 8, 9, 5)] ''map.nbg_to_ebg''
     = Inr \<lparr>heads = [5 \<mapsto> \<lparr>u = 1, v = 2\<rparr>, 9 \<mapsto> \<lparr>u = 7, v = 8\<rparr>],
            tails = [6 \<mapsto> \<lparr>u = 1, v = 2\<rparr>, 5 \<mapsto> \<lparr>u = 7, v = 8\<rparr>]\<rparr>
   \<and> Lookup True 0xFFFFFFFF
        \<lparr>heads = [5 \<mapsto> \<lparr>u = 1, v = 2\<rparr>, 9 \<mapsto> \<lparr>u = 7, v = 8\<rparr>],
         tails = [6 \<mapsto> \<lparr>u = 1, v = 2\<rparr>, 5 \<mapsto> \<lparr>u = 7, v = 8\<rparr>]\<rparr> 5 = Inr \<lparr>u = 1, v = 2\<rparr>
   \<and> Lookup True 0xFFFFFFFF
        \<lparr>heads = [5 \<mapsto> \<lparr>u = 1, v = 2\<rparr>, 9 \<mapsto> \<lparr>u = 7, v = 8\<rparr>],
         tails = [6 \<mapsto> \<lparr>u = 1, v = 2\<rparr>, 5 \<mapsto> \<lparr>u = 7, v = 8\<rparr>]\<rparr> 6 = Inr \<lparr>u = 1, v = 2\<rparr>
   \<and> \<lparr>u = 1, v = 2\<rparr> \<noteq> \<lparr>u = 3 :: NodeID, v = 4 :: NodeID\<rparr>
   \<and> \<lparr>u = 1, v = 2\<rparr> \<noteq> \<lparr>u = 7 :: NodeID, v = 8 :: NodeID\<rparr>"
proof -
  have "LoadNodeBasedGraphToEdgeBasedGraphMapping [0x4F, 0x53, 0x52, 0x4E]
      [''map.nbg_to_ebg'' \<mapsto> [0x4F, 0x53, 0x52, 0x4E]
          @ to_le 8 (word_of_nat
              (length [(1, 2, 5, 6), (3, 4, 5, 6), (7, 8, 9, 5) :: mapping_record]) :: u64)
          @ concat (map encode_mapping [(1, 2, 5, 6), (3, 4, 5, 6), (7, 8, 9, 5)]) @ []]
      ''map.nbg_to_ebg''
     = Inr (insert_records [(1, 2, 5, 6), (3, 4, 5, 6), (7, 8, 9, 5)]
              \<lparr>heads = Map.empty, tails = Map.empty\<rparr>)"
    by (rule load_mapping_encoded [of _ "''map.nbg_to_ebg''" "[0x4F, 0x53, 0x52, 0x4E]"
          "[(1, 2, 5, 6), (3, 4, 5, 6), (7, 8, 9, 5)]" "[]"]) simp_all
  then show ?thesis
    by (simp add: unordered_map_insert_def Lookup_def)
qed

section \<open>Loading and partitioning the graph\<close>

text \<open>
  C6. For every well-formed graph file that declares \<open>edge_count\<close> edges and \<open>node_count\<close>
  coordinates, both counts being sizes that a vector can take, \<open>LoadCompressedNodeBasedGraph\<close>
  returns a graph whose edges are the \<open>edge_count\<close> edges of the file and whose coordinates
  are its \<open>node_count\<close> coordinates, each in file order. Nothing relates the endpoints of
  the edges to \<open>node_count\<close>: the loader does not check them.
\<close>

theorem C6_load_graph_counts_and_order:
  assumes bytes: "fs path = Some (valid @ to_le 8 (edge_count :: u64) @ to_le 8 (node_count :: u64)
                    @ concat (map encode_edge es) @ concat (map encode_coordinate cs) @ rest)"
    and les: "length es = unat edge_count" and lcs: "length cs = unat node_count"
    and fits: "unat edge_count \<le> max_size" "unat node_count \<le> max_size"
  shows "\<exists>graph. LoadCompressedNodeBasedGraph max_size valid fs path = Inr graph
    \<and> edges graph = es \<and> coordinates graph = cs
    \<and> length (edges graph) = unat edge_count \<and> length (coordinates graph) = unat node_count"
proof -
  have e: "ReadInto decode_edge 8 (replicate (length es) \<lparr>source = 0, target = 0\<rparr>)
      (concat (map encode_edge es) @ concat (map encode_coordinate cs) @ rest)
      = Inr (es, concat (map encode_coordinate cs) @ rest)"
    by (rule ReadInto_encoded) simp_all
  have c: "ReadInto decode_coordinate 8 (replicate (length cs) \<lparr>lon = 0, lat = 0\<rparr>)
      (concat (map encode_coordinate cs) @ rest) = Inr (cs, rest)"
    by (rule ReadInto_encoded) simp_all
  have "LoadCompressedNodeBasedGraph max_size valid fs path = Inr \<lparr>edges = es, coordinates = cs\<rparr>"
    using e c fits [unfolded les [symmetric] lcs [symmetric]]
    by (simp add: LoadCompressedNodeBasedGraph_def FileReader_open_def bytes ReadBytes_def
        CompressedNodeBasedGraph_ctor_def les [symmetric] lcs [symmetric])
  then show ?thesis using les lcs by simp
qed

theorem C6_load_graph_counts_and_order_witness:
  "\<exists>graph. LoadCompressedNodeBasedGraph 1152921504606846975 [0x4F, 0x53, 0x52, 0x4E]
        [''map.cnbg'' \<mapsto> [0x4F, 0x53, 0x52, 0x4E] @ to_le 8 (2::u64) @ to_le 8 (1::u64)
            @ concat (map encode_edge [\<lparr>source = 7, target = 9\<rparr>, \<lparr>source = 0, target = 7\<rparr>])
            @ concat (map encode_coordinate [\<lparr>lon = 13, lat = 52\<rparr>]) @ []] ''map.cnbg'' = Inr graph
     \<and> edges graph = [\<lparr>source = 7, target = 9\<rparr>, \<lparr>source = 0, target = 7\<rparr>]
     \<and> coordinates graph = [\<lparr>lon = 13, lat = 52\<rparr>]
     \<and> length (edges graph) = unat (2::u64) \<and> length (coordinates graph) = unat (1::u64)"
proof -
  let ?es = "[\<lparr>source = 7, target = 9\<rparr>, \<lparr>source = 0, target = 7\<rparr>]"
  let ?cs = "[\<lparr>lon = 13, lat = 52\<rparr>]"
  let ?fs = "[''map.cnbg'' \<mapsto> [0x4F, 0x53, 0x52, 0x4E] @ to_le 8 (2::u64) @ to_le 8 (1::u64)
            @ concat (map encode_edge ?es) @ concat (map encode_coordinate ?cs) @ []]"
  have bytes: "?fs ''map.cnbg'' = Some ([0x4F, 0x53, 0x52, 0x4E] @ to_le 8 (2::u64) @ to_le 8 (1::u64)
            @ concat (map encode_edge ?es) @ concat (map encode_coordinate ?cs) @ [])"
    by simp
  have les: "length ?es = unat (2::u64)" by simp
  have lcs: "length ?cs = unat (1::u64)" by simp
  have f1: "unat (2::u64) \<le> 1152921504606846975" by simp
  have f2: "unat (1::u64) \<le> 1152921504606846975" by simp
  show ?thesis
    by (rule C6_load_graph_counts_and_order
          [of ?fs "''map.cnbg''" "[0x4F, 0x53, 0x52, 0x4E]" 2 1 ?es ?cs "[]",
            OF bytes les lcs f1 f2])
qed





text \<open>
  C9. After the construction of the recursive bisection engine, \<open>BisectionIDs\<close> has
  exactly \<open>NumberOfNodes\<close> entries, so every NodeID below \<open>NumberOfNodes\<close> indexes an
  identifier.
\<close>

theorem C9_one_identifier_per_node:
  "RecursiveBisection_ctor select_cut maximum_cell_size balance boundary_factor
      num_optimizing_cuts graph = Inr rb \<Longrightarrow>
     length (BisectionIDs rb) = NumberOfNodes graph
       \<and> (\<forall>nid<NumberOfNodes graph. at_index (BisectionIDs rb) nid = Inr (BisectionIDs rb ! nid))"
proof -
  assume "RecursiveBisection_ctor select_cut maximum_cell_size balance boundary_factor
      num_optimizing_cuts graph = Inr rb"
  then obtain ids where
    b: "bisect (select_cut graph balance boundary_factor num_optimizing_cuts) maximum_cell_size 32
          [0..<NumberOfNodes graph] (replicate (NumberOfNodes graph) 0) = Inr ids"
    and rb: "rb = \<lparr>partition_ids = ids\<rparr>"
    by (auto simp: RecursiveBisection_ctor_def split: if_splits sum.splits)
  from length_bisect [OF b] rb have "length (BisectionIDs rb) = NumberOfNodes graph"
    by (simp add: BisectionIDs_def)
  then show ?thesis by (simp add: at_index_def)
qed

theorem C9_one_identifier_per_node_witness:
  "RecursiveBisection_ctor (\<lambda>g b f n cell nid. odd nid) 2 1 0 1
      (makeBisectionGraph (replicate 4 \<lparr>lon = 0, lat = 0\<rparr>) []) = Inr \<lparr>partition_ids = [0, 1, 0, 1]\<rparr>
   \<and> length (BisectionIDs \<lparr>partition_ids = [0, 1, 0, 1]\<rparr>)
       = NumberOfNodes (makeBisectionGraph (replicate 4 \<lparr>lon = 0, lat = 0\<rparr>) [])
   \<and> (3::nat) < NumberOfNodes (makeBisectionGraph (replicate 4 \<lparr>lon = 0, lat = 0\<rparr>) [])
   \<and> at_index (BisectionIDs \<lparr>partition_ids = [0, 1, 0, 1]\<rparr>) 3 = Inr 1"
proof -
  let ?g = "makeBisectionGraph (replicate 4 \<lparr>lon = 0, lat = 0\<rparr>) []"
  have run: "RecursiveBisection_ctor (\<lambda>g b f n cell nid. odd nid) 2 1 0 1 ?g
      = Inr \<lparr>partition_ids = [0, 1, 0, 1]\<rparr>"
    by (simp add: RecursiveBisection_ctor_def makeBisectionGraph_def NumberOfNodes_def
        bisect_leaf bisect_split assign_bits_def upt_4 del: bisect.simps)
  have n: "(3::nat) < NumberOfNodes ?g"
    by (simp add: makeBisectionGraph_def NumberOfNodes_def)
  from C9_one_identifier_per_node [OF run]
  have len: "length (BisectionIDs \<lparr>partition_ids = [0, 1, 0, 1]\<rparr>) = NumberOfNodes ?g"
    and idx: "\<forall>nid<NumberOfNodes ?g. at_index (BisectionIDs \<lparr>partition_ids = [0, 1, 0, 1]\<rparr>) nid
        = Inr (BisectionIDs \<lparr>partition_ids = [0, 1, 0, 1]\<rparr> ! nid)"
    by blast+
  from idx n have "at_index (BisectionIDs \<lparr>partition_ids = [0, 1, 0, 1]\<rparr>) 3
      = Inr (BisectionIDs \<lparr>partition_ids = [0, 1, 0, 1]\<rparr> ! 3)" by blast
  then have "at_index (BisectionIDs \<lparr>partition_ids = [0, 1, 0, 1]\<rparr>) 3 = Inr 1"
    by (simp add: BisectionIDs_def)
  with run len n show ?thesis by simp
qed

end
